theory Spec2Isabelle
  imports Main "HOL-Library.Word"
begin

section \<open>The syntax tree consumed by the rule\<close>

text \<open>
  The rule \<^verbatim>\<open>prefer-object-spread\<close> (\<^verbatim>\<open>src/rules/preferObjectSpreadRule.ts\<close>) reads a
  TypeScript syntax tree: node kinds, the offsets \<^verbatim>\<open>getStart(sourceFile)\<close> and \<^verbatim>\<open>end\<close>, the
  kind-specific children and the parent link. Offsets are JavaScript numbers holding
  integers; they are modelled as \<open>int\<close>, so that \<^verbatim>\<open>end - start\<close> and \<^verbatim>\<open>node.end - 1\<close> are
  the plain differences.

  The node kinds the rule inspects have a constructor of their own, carrying the fields the
  rule reads. Every other kind of \<^verbatim>\<open>ts.SyntaxKind\<close> is an \<open>OtherNode\<close> with its kind and its
  children in \<^verbatim>\<open>forEachChild\<close> order. The name of a property access is an identifier by
  its TypeScript type; its offsets and text are stored in the access node.
\<close>

datatype token_kind =
    EqualsToken
  | PlusEqualsToken
  | EqualsEqualsToken
  | PlusToken
  | BarBarToken
  | OtherToken nat

datatype other_kind =
    VariableDeclaration
  | PropertyAssignment
  | PropertyDeclaration
  | ReturnStatement
  | BindingElement
  | ArrayLiteralExpression
  | ExpressionStatement
  | NumericLiteral
  | SourceFile
  | OtherKind nat

datatype node =
    isIdentifier: Identifier (getStart: int) (node_end: int) (identifier_text: string)
  | isPropertyAccessExpression: PropertyAccessExpression (getStart: int) (node_end: int)
      (expression: node) (name_start: int) (name_end: int) (name_text: string)
  | isCallExpression: CallExpression (getStart: int) (node_end: int)
      (expression: node) (typeArguments: "node list") (arguments: "node list")
      (hasTrailingComma: bool) (arguments_end: int)
  | isNewExpression: NewExpression (getStart: int) (node_end: int)
      (expression: node) (typeArguments: "node list") (new_arguments: "node list option")
  | isObjectLiteralExpression: ObjectLiteralExpression (getStart: int) (node_end: int)
      (properties: "node list")
  | isSpreadElement: SpreadElement (getStart: int) (node_end: int) (expression: node)
  | isConditionalExpression: ConditionalExpression (getStart: int) (node_end: int)
      (condition: node) (whenTrue: node) (whenFalse: node)
  | isBinaryExpression: BinaryExpression (getStart: int) (node_end: int)
      (left: node) (operatorToken: token_kind) (right: node)
  | isOtherNode: OtherNode (getStart: int) (node_end: int) (other_kind: other_kind)
      (children: "node list")

text \<open>
  \<^verbatim>\<open>node.parent\<close> is a reference to the parent object, and \<^verbatim>\<open>arguments.indexOf(node)\<close>
  compares references. A node of a tree is identified by its place there: the parent
  link of a node is the parent together with the slot the node fills in it.
\<close>

datatype slot =
    ExpressionSlot
  | NameSlot
  | TypeArgumentSlot nat
  | ArgumentSlot nat
  | PropertySlot nat
  | ConditionSlot
  | WhenTrueSlot
  | WhenFalseSlot
  | LeftSlot
  | RightSlot
  | ChildSlot nat

definition slots :: "(nat \<Rightarrow> slot) \<Rightarrow> node list \<Rightarrow> (slot \<times> node) list" where
  "slots f ns = zip (map f [0..<length ns]) ns"

text \<open>
  The children \<^verbatim>\<open>ts.forEachChild\<close> passes to its callback, in its order. Token children
  (\<^verbatim>\<open>?.\<close>, \<^verbatim>\<open>?\<close>, \<^verbatim>\<open>:\<close>, the operator of a binary expression) are left out: a token is no
  call expression and has no children, so the callback of the rule does nothing there.
\<close>

fun forEachChild_links :: "node \<Rightarrow> (slot \<times> node) list" where
  "forEachChild_links (Identifier s e t) = []"
| "forEachChild_links (PropertyAccessExpression s e x ns ne nt) =
     [(ExpressionSlot, x), (NameSlot, Identifier ns ne nt)]"
| "forEachChild_links (CallExpression s e x targs args htc aend) =
     (ExpressionSlot, x) # slots TypeArgumentSlot targs @ slots ArgumentSlot args"
| "forEachChild_links (NewExpression s e x targs args) =
     (ExpressionSlot, x) # slots TypeArgumentSlot targs @
       (case args of None \<Rightarrow> [] | Some as \<Rightarrow> slots ArgumentSlot as)"
| "forEachChild_links (ObjectLiteralExpression s e props) = slots PropertySlot props"
| "forEachChild_links (SpreadElement s e x) = [(ExpressionSlot, x)]"
| "forEachChild_links (ConditionalExpression s e c t f) =
     [(ConditionSlot, c), (WhenTrueSlot, t), (WhenFalseSlot, f)]"
| "forEachChild_links (BinaryExpression s e l op r) = [(LeftSlot, l), (RightSlot, r)]"
| "forEachChild_links (OtherNode s e k cs) = slots ChildSlot cs"

section \<open>Replacements and fixes\<close>

text \<open>
  \<^verbatim>\<open>new Lint.Replacement(start, length, text)\<close>. A fix is the array of replacements
  \<^verbatim>\<open>createFix\<close> returns.
\<close>

datatype replacement =
  Replacement (replacement_start: int) (replacement_length: int) (replacement_text: string)

type_synonym lint_fix = "replacement list"

definition replacement_end :: "replacement \<Rightarrow> int" where
  "replacement_end r = replacement_start r + replacement_length r"

text \<open>
  Modelled from the spec: the static constructors of \<^verbatim>\<open>Lint.Replacement\<close>
  (\<^verbatim>\<open>replaceFromTo\<close>, \<^verbatim>\<open>deleteText\<close>, \<^verbatim>\<open>deleteFromTo\<close>, \<^verbatim>\<open>appendText\<close>) are not among the
  sources. The spec has three operations over the original text: replace the range
  \<open>[start, end)\<close> with a text, insert a text at an offset (a replace of length zero), delete
  the range \<open>[start, end)\<close>.
\<close>

definition replaceFromTo :: "int \<Rightarrow> int \<Rightarrow> string \<Rightarrow> replacement" where
  "replaceFromTo start end' txt = Replacement start (end' - start) txt"

definition deleteText :: "int \<Rightarrow> int \<Rightarrow> replacement" where
  "deleteText start len = Replacement start len []"

definition deleteFromTo :: "int \<Rightarrow> int \<Rightarrow> replacement" where
  "deleteFromTo start end' = Replacement start (end' - start) []"

definition appendText :: "int \<Rightarrow> string \<Rightarrow> replacement" where
  "appendText start txt = Replacement start 0 txt"

text \<open>
  Modelled from the spec: the applier of a fix is not among the sources. The spec: the
  ranges refer to offsets of the original text and are applied as one simultaneous patch,
  left to right by offset. The operations are ordered by start offset (an insertion before
  a range that starts at the same offset, equal ranges in the order of the fix), and the
  text between them is copied.
\<close>

definition before :: "replacement \<Rightarrow> replacement \<Rightarrow> bool" where
  "before a b \<longleftrightarrow>
     replacement_start a < replacement_start b \<or>
     (replacement_start a = replacement_start b \<and> replacement_end a < replacement_end b)"

fun insert_by_offset :: "replacement \<Rightarrow> replacement list \<Rightarrow> replacement list" where
  "insert_by_offset r [] = [r]"
| "insert_by_offset r (x # xs) =
     (if before x r then x # insert_by_offset r xs else r # x # xs)"

fun sort_by_offset :: "replacement list \<Rightarrow> replacement list" where
  "sort_by_offset [] = []"
| "sort_by_offset (r # rs) = insert_by_offset r (sort_by_offset rs)"

definition slice :: "string \<Rightarrow> int \<Rightarrow> int \<Rightarrow> string" where
  "slice content from to = take (nat (to - from)) (drop (nat from) content)"

fun patch :: "string \<Rightarrow> int \<Rightarrow> replacement list \<Rightarrow> string" where
  "patch content cursor [] = drop (nat cursor) content"
| "patch content cursor (r # rs) =
     slice content cursor (replacement_start r) @ replacement_text r @
       patch content (replacement_end r) rs"

definition applyFix :: "string \<Rightarrow> lint_fix \<Rightarrow> string" where
  "applyFix content ops = patch content 0 (sort_by_offset ops)"

definition overlap :: "replacement \<Rightarrow> replacement \<Rightarrow> bool" where
  "overlap a b \<longleftrightarrow>
     replacement_start a < replacement_end b \<and> replacement_start b < replacement_end a"

section \<open>The fix generator\<close>

datatype error = TypeError

fun needsParens :: "node \<Rightarrow> bool" where
  "needsParens (ConditionalExpression s e c t f) = True"
| "needsParens (BinaryExpression s e l op r) = True"
| "needsParens _ = False"

text \<open>
  The body of the loop of \<^verbatim>\<open>createFix\<close> at index \<open>i\<close>: the replacements it pushes. The
  loop runs it for \<open>i < args.length\<close> only, so \<open>args[i]\<close> exists; \<open>args[i + 1]\<close> is read when
  \<open>i\<close> is not the last index, and the last property when there is one.
\<close>

definition createFix_body :: "node \<Rightarrow> nat \<Rightarrow> replacement list" where
  "createFix_body node i =
     (let args = arguments node; arg = args ! i in
      if isObjectLiteralExpression arg then
        if length (properties arg) = 0 then
          (let end' =
             (if i \<noteq> length args - 1 then getStart (args ! (i + 1))
              else if hasTrailingComma node = True then arguments_end node
              else node_end arg)
           in [deleteFromTo (getStart arg) end'])
        else
          [deleteText (getStart arg) 1,
           deleteFromTo (node_end (properties arg ! (length (properties arg) - 1)))
             (node_end arg)]
      else
        (let parens = needsParens arg in
         appendText (getStart arg) (if parens then ''...('' else ''...'') #
           (if parens then [appendText (node_end arg) '')''] else [])))"

function createFix_loop :: "node \<Rightarrow> nat \<Rightarrow> lint_fix \<Rightarrow> lint_fix" where
  "createFix_loop node i fx =
     (if i < length (arguments node)
      then createFix_loop node (i + 1) (fx @ createFix_body node i)
      else fx)"
  by pat_completeness auto
termination
  by (relation "measure (\<lambda>(node, i, fx). length (arguments node) - i)") auto

declare createFix_loop.simps [simp del]

text \<open>
  \<^verbatim>\<open>createFix(node, sourceFile)\<close>. The source file is only passed on to \<^verbatim>\<open>getStart\<close>, which
  the tree stores. With no argument, \<^verbatim>\<open>args[0]\<close> is \<^verbatim>\<open>undefined\<close> and \<^verbatim>\<open>args[0].getStart\<close>
  throws a \<^verbatim>\<open>TypeError\<close>; so does \<^verbatim>\<open>node.arguments[0]\<close> on a node that has no arguments
  field.
\<close>

definition createFix :: "node \<Rightarrow> error + lint_fix" where
  "createFix node =
     (if isCallExpression node \<and> arguments node \<noteq> [] then
        Inr (createFix_loop node 0
          [replaceFromTo (getStart node) (getStart (arguments node ! 0)) ''{'',
           Replacement (node_end node - 1) 1 ''}''])
      else Inl TypeError)"

section \<open>The usage classifier\<close>

text \<open>
  \<^verbatim>\<open>args.indexOf(node)\<close> for the node that fills the given slot of the parent whose
  argument list is \<open>args\<close>: its index when it is one of the arguments, \<open>-1\<close> otherwise.
\<close>

fun indexOf :: "node list \<Rightarrow> slot \<Rightarrow> int" where
  "indexOf args (ArgumentSlot i) = (if i < length args then int i else - 1)"
| "indexOf args _ = - 1"

text \<open>\<^verbatim>\<open>isReturnValueUsed(node)\<close>, given \<^verbatim>\<open>node.parent\<close> and the slot of the node in it.\<close>

fun isReturnValueUsed :: "node \<Rightarrow> slot \<Rightarrow> bool" where
  "isReturnValueUsed (OtherNode s e k cs) sl =
     (case k of
        VariableDeclaration \<Rightarrow> True
      | PropertyAssignment \<Rightarrow> True
      | PropertyDeclaration \<Rightarrow> True
      | ReturnStatement \<Rightarrow> True
      | BindingElement \<Rightarrow> True
      | ArrayLiteralExpression \<Rightarrow> True
      | _ \<Rightarrow> False)"
| "isReturnValueUsed (BinaryExpression s e l op r) sl = (op = EqualsToken)"
| "isReturnValueUsed (NewExpression s e x targs args) sl =
     (case args of None \<Rightarrow> False | Some as \<Rightarrow> indexOf as sl \<noteq> - 1)"
| "isReturnValueUsed (CallExpression s e x targs args htc aend) sl = (indexOf args sl \<noteq> - 1)"
| "isReturnValueUsed _ sl = False"

section \<open>The walker\<close>

text \<open>
  Modelled from the spec: \<^verbatim>\<open>Lint.RuleFailure\<close> and \<^verbatim>\<open>WalkContext.addFailureAtNode\<close> are not
  among the sources. The spec: a failure is a node reference, a message text and an
  optional fix, anchored at the span of the node; the context collects the failures in the
  order they are added.
\<close>

record failure =
  failure_node :: node
  message :: string
  failure_fix :: "lint_fix option"

type_synonym ctx = "failure list"

definition addFailureAtNode :: "node \<Rightarrow> string \<Rightarrow> lint_fix \<Rightarrow> ctx \<Rightarrow> ctx" where
  "addFailureAtNode node msg fx ctx =
     ctx @ [\<lparr>failure_node = node, message = msg, failure_fix = Some fx\<rparr>]"

definition FAILURE_STRING :: string where
  "FAILURE_STRING = ''Use the object spread operator instead.''"

definition ASSIGNMENT_FAILURE_STRING :: string where
  "ASSIGNMENT_FAILURE_STRING =
     '''Object.assign' returns the first argument. Prefer object spread if you want a new object.''"

text \<open>
  The test of the callback \<^verbatim>\<open>cb\<close>, lines 50 to 54: the conjuncts in the order of the
  source, each guarding the field reads of the next.
\<close>

definition cb_condition :: "node \<Rightarrow> bool" where
  "cb_condition node \<longleftrightarrow>
     isCallExpression node \<and> length (arguments node) \<noteq> 0 \<and>
     isPropertyAccessExpression (expression node) \<and>
     name_text (expression node) = ''assign'' \<and>
     isIdentifier (expression (expression node)) \<and>
     identifier_text (expression (expression node)) = ''Object'' \<and>
     \<not> list_ex isSpreadElement (arguments node)"

text \<open>
  The statement of \<^verbatim>\<open>cb\<close> before it descends, lines 50 to 60. \<open>hasSideEffects\<close> stands for
  \<^verbatim>\<open>hasSideEffects(_, SideEffectOptions.Constructor)\<close> of the library \<^verbatim>\<open>tsutils\<close>, a
  parameter. An exception of \<^verbatim>\<open>createFix\<close> leaves the callback.
\<close>

definition cb_report ::
  "(node \<Rightarrow> bool) \<Rightarrow> node \<Rightarrow> slot \<Rightarrow> node \<Rightarrow> ctx \<Rightarrow> error + ctx" where
  "cb_report hasSideEffects parent sl node ctx =
     (if cb_condition node then
        if isObjectLiteralExpression (arguments node ! 0) then
          (case createFix node of
             Inl err \<Rightarrow> Inl err
           | Inr fx \<Rightarrow> Inr (addFailureAtNode node FAILURE_STRING fx ctx))
        else if isReturnValueUsed parent sl \<and> \<not> hasSideEffects (arguments node ! 0) then
          (case createFix node of
             Inl err \<Rightarrow> Inl err
           | Inr fx \<Rightarrow> Inr (addFailureAtNode node ASSIGNMENT_FAILURE_STRING fx ctx))
        else Inr ctx
      else Inr ctx)"

text \<open>
  \<^verbatim>\<open>ts.forEachChild(node, cbNode)\<close> calls \<open>cbNode\<close> on the children in order and stops at
  the first call that returns a truthy value, which it returns; otherwise it returns
  \<^verbatim>\<open>undefined\<close>. The boolean of the result says whether a truthy value came back. The
  failures collected so far are threaded through the calls.
\<close>

fun forEachChild ::
  "(slot \<times> node) list \<Rightarrow> (slot \<Rightarrow> node \<Rightarrow> ctx \<Rightarrow> error + bool \<times> ctx) \<Rightarrow> ctx \<Rightarrow>
     error + bool \<times> ctx" where
  "forEachChild [] cbNode ctx = Inr (False, ctx)"
| "forEachChild ((sl, child) # rest) cbNode ctx =
     (case cbNode sl child ctx of
        Inl err \<Rightarrow> Inl err
      | Inr (truthy, ctx') \<Rightarrow>
          if truthy then Inr (True, ctx') else forEachChild rest cbNode ctx')"

lemma forEachChild_cong [fundef_cong]:
  "links = links' \<Longrightarrow> ctx = ctx' \<Longrightarrow>
   (\<And>sl child c. (sl, child) \<in> set links' \<Longrightarrow> f sl child c = g sl child c) \<Longrightarrow>
   forEachChild links f ctx = forEachChild links' g ctx'"
proof (induction links' arbitrary: links ctx ctx')
  case Nil
  then show ?case by simp
next
  case (Cons a links')
  obtain sl child where a: "a = (sl, child)" by (cases a)
  from Cons.prems have eq: "f sl child ctx' = g sl child ctx'"
    by (simp add: a)
  have rest: "\<And>c. forEachChild links' f c = forEachChild links' g c"
    by (rule Cons.IH) (use Cons.prems in auto)
  show ?case
    using Cons.prems(1,2) eq rest by (simp add: a split: sum.splits prod.splits)
qed

lemma size_slots:
  "(sl, child) \<in> set (slots f ns) \<Longrightarrow> size child < Suc (size_list size ns)"
proof -
  assume "(sl, child) \<in> set (slots f ns)"
  then have "child \<in> set ns"
    unfolding slots_def by (auto dest: set_zip_rightD)
  then have "size child \<le> size_list size ns"
    by (induction ns) auto
  then show ?thesis by simp
qed

lemma size_forEachChild_links:
  "(sl, child) \<in> set (forEachChild_links node) \<Longrightarrow> size child < size node"
  by (cases node) (auto dest: size_slots split: option.splits)

function cb :: "(node \<Rightarrow> bool) \<Rightarrow> node \<Rightarrow> slot \<Rightarrow> node \<Rightarrow> ctx \<Rightarrow> error + bool \<times> ctx" where
  "cb hasSideEffects parent sl node ctx =
     (case cb_report hasSideEffects parent sl node ctx of
        Inl err \<Rightarrow> Inl err
      | Inr ctx' \<Rightarrow> forEachChild (forEachChild_links node) (cb hasSideEffects node) ctx')"
  by pat_completeness auto
termination
  by (relation "measure (\<lambda>(h, parent, sl, node, ctx). size node)")
    (auto dest: size_forEachChild_links)

declare cb.simps [simp del]

definition walk :: "(node \<Rightarrow> bool) \<Rightarrow> node \<Rightarrow> ctx \<Rightarrow> error + bool \<times> ctx" where
  "walk hasSideEffects sourceFile ctx =
     forEachChild (forEachChild_links sourceFile) (cb hasSideEffects sourceFile) ctx"

text \<open>
  Modelled from the spec: \<^verbatim>\<open>AbstractRule.applyWithFunction\<close> is not among the sources. The
  spec: the core is invoked as \<^verbatim>\<open>apply(sourceTree)\<close> and gives the list of failures; the
  walk starts from no failure.
\<close>

definition apply_rule :: "(node \<Rightarrow> bool) \<Rightarrow> node \<Rightarrow> error + failure list" where
  "apply_rule hasSideEffects sourceFile =
     (case walk hasSideEffects sourceFile [] of
        Inl err \<Rightarrow> Inl err
      | Inr (truthy, ctx) \<Rightarrow> Inr ctx)"

section \<open>The JSON formatter\<close>

text \<open>
  \<^verbatim>\<open>JsonFormatter.format\<close> calls \<^verbatim>\<open>failure.toJson()\<close>, which is not among the sources and is a
  parameter, and \<^verbatim>\<open>JSON.stringify\<close> with one argument. The values \<^verbatim>\<open>toJson\<close> gives are JSON
  values. Their numbers are the unsigned 32-bit integers, which hold the offsets, lines and
  columns of a source text: each is a JavaScript number, and \<^verbatim>\<open>JSON.stringify\<close> prints it in
  plain decimal (the exponent form of JavaScript starts at \<open>10\<^sup>2\<^sup>1\<close>, and is not needed).
\<close>

datatype json =
    JNull
  | JBool bool
  | JNumber "32 word"
  | JString string
  | JArray "json list"
  | JObject "(string \<times> json) list"

text \<open>
  \<^verbatim>\<open>JSON.stringify(value)\<close> of ECMAScript, with no replacer and no indentation: the
  elements of an array and the members of an object are separated by a comma and nothing
  else. A string is quoted with the escapes of \<^verbatim>\<open>QuoteJSONString\<close>; strings are byte
  strings here, and the bytes from \<open>0x20\<close> other than the quote and the backslash stand
  as they are.
\<close>

fun join :: "string \<Rightarrow> string list \<Rightarrow> string" where
  "join sep [] = []"
| "join sep [x] = x"
| "join sep (x # y # ys) = x @ sep @ join sep (y # ys)"

definition hex_digit :: "nat \<Rightarrow> char" where
  "hex_digit n = ''0123456789abcdef'' ! (n mod 16)"

definition quote_char :: "char \<Rightarrow> string" where
  "quote_char c =
     (if c = CHR 0x22 then [CHR 0x5C, CHR 0x22]
      else if c = CHR 0x5C then [CHR 0x5C, CHR 0x5C]
      else if c = CHR 0x08 then [CHR 0x5C, CHR ''b'']
      else if c = CHR 0x09 then [CHR 0x5C, CHR ''t'']
      else if c = CHR 0x0A then [CHR 0x5C, CHR ''n'']
      else if c = CHR 0x0C then [CHR 0x5C, CHR ''f'']
      else if c = CHR 0x0D then [CHR 0x5C, CHR ''r'']
      else if of_char c < (0x20 :: nat) then
        [CHR 0x5C, CHR ''u'', CHR ''0'', CHR ''0'',
         hex_digit (of_char c div 16), hex_digit (of_char c)]
      else [c])"

definition quote :: "string \<Rightarrow> string" where
  "quote s = [CHR 0x22] @ concat (map quote_char s) @ [CHR 0x22]"

function digits :: "nat \<Rightarrow> string" where
  "digits n = (if n < 10 then [hex_digit n] else digits (n div 10) @ [hex_digit (n mod 10)])"
  by pat_completeness auto
termination
  by (relation "measure (\<lambda>n. n)") auto

declare digits.simps [simp del]

definition number_string :: "32 word \<Rightarrow> string" where
  "number_string w = digits (unat w)"

fun JSON_stringify :: "json \<Rightarrow> string" where
  "JSON_stringify JNull = ''null''"
| "JSON_stringify (JBool b) = (if b then ''true'' else ''false'')"
| "JSON_stringify (JNumber w) = number_string w"
| "JSON_stringify (JString s) = quote s"
| "JSON_stringify (JArray vs) = ''['' @ join '','' (map JSON_stringify vs) @ '']''"
| "JSON_stringify (JObject ms) =
     ''{'' @ join '','' (map (\<lambda>(k, v). quote k @ '':'' @ JSON_stringify v) ms) @ ''}''"

text \<open>The loop of \<^verbatim>\<open>format\<close>, lines 29 to 32: \<open>i\<close> runs over the indices of \<open>failures\<close>.\<close>

function format_loop :: "('f \<Rightarrow> json) \<Rightarrow> 'f list \<Rightarrow> nat \<Rightarrow> json list \<Rightarrow> json list" where
  "format_loop toJson failures i failuresJSON =
     (if i < length failures
      then format_loop toJson failures (i + 1) (failuresJSON @ [toJson (failures ! i)])
      else failuresJSON)"
  by pat_completeness auto
termination
  by (relation "measure (\<lambda>(toJson, failures, i, failuresJSON). length failures - i)") auto

declare format_loop.simps [simp del]

definition format :: "('f \<Rightarrow> json) \<Rightarrow> 'f list \<Rightarrow> string" where
  "format toJson failures = JSON_stringify (JArray (format_loop toJson failures 0 []))"

section \<open>The contracts of the spec, for comparison\<close>

text \<open>
  The pattern matcher as the spec words it: the node is a call with at least one argument,
  its callee a member access whose receiver is the plain identifier \<^verbatim>\<open>Object\<close> and whose
  member is named \<^verbatim>\<open>assign\<close>, and no argument is a spread argument.
\<close>

fun matches :: "node \<Rightarrow> bool" where
  "matches (CallExpression s e (PropertyAccessExpression s' e' (Identifier s'' e'' obj) ns ne nm)
      targs args htc aend) =
     (args \<noteq> [] \<and> obj = ''Object'' \<and> nm = ''assign'' \<and> \<not> list_ex isSpreadElement args)"
| "matches _ = False"

text \<open>
  A qualifying call, given its parent link: it matches, and its first argument is an object
  literal, or its value is used and its first argument has no side effect.
\<close>

definition qualifies :: "(node \<Rightarrow> bool) \<Rightarrow> node \<times> slot \<times> node \<Rightarrow> bool" where
  "qualifies hasSideEffects link =
     (case link of (parent, sl, node) \<Rightarrow>
        matches node \<and>
        (isObjectLiteralExpression (arguments node ! 0) \<or>
         isReturnValueUsed parent sl \<and> \<not> hasSideEffects (arguments node ! 0)))"

text \<open>The one failure of a qualifying call: its node, its message variant and its fix.\<close>

definition expected_failure :: "node \<Rightarrow> failure" where
  "expected_failure node =
     \<lparr>failure_node = node,
      message =
        (if isObjectLiteralExpression (arguments node ! 0) then FAILURE_STRING
         else ASSIGNMENT_FAILURE_STRING),
      failure_fix = (case createFix node of Inl err \<Rightarrow> None | Inr fx \<Rightarrow> Some fx)\<rparr>"

text \<open>
  The proper descendants of a node in depth-first pre-order (document order), each with its
  parent link.
\<close>

function descendants :: "node \<Rightarrow> (node \<times> slot \<times> node) list" where
  "descendants node =
     concat (map (\<lambda>(sl, child). (node, sl, child) # descendants child)
       (forEachChild_links node))"
  by pat_completeness auto
termination
  by (relation "measure size") (auto dest: size_forEachChild_links)

declare descendants.simps [simp del]

text \<open>The failures of the qualifying calls among the given nodes, in their order.\<close>

definition reports :: "(node \<Rightarrow> bool) \<Rightarrow> (node \<times> slot \<times> node) list \<Rightarrow> failure list" where
  "reports hasSideEffects links =
     map (\<lambda>link. expected_failure (snd (snd link))) (filter (qualifies hasSideEffects) links)"

text \<open>The text a fix gives when it is applied to the original text.\<close>

definition fixed_text :: "string \<Rightarrow> node \<Rightarrow> error + string" where
  "fixed_text content node =
     (case createFix node of Inl err \<Rightarrow> Inl err | Inr fx \<Rightarrow> Inr (applyFix content fx))"

text \<open>\<^verbatim>\<open>node.getText(sourceFile)\<close>: the text between the start and the end of a node.\<close>

definition getText :: "string \<Rightarrow> node \<Rightarrow> string" where
  "getText content node = slice content (getStart node) (node_end node)"

text \<open>
  The order of the offsets in a call the parser has built without error: the call starts
  no later than its first argument, every argument starts no later than it ends and ends no
  later than the next one starts, the last one ends within the argument list, and the list
  ends before the closing parenthesis, the last character of the call; a non-empty object
  literal has its opening brace before the end of its last property, which ends within the
  literal. \<open>disjoint_ops\<close> says that no two replacements of a list overlap.
\<close>

definition well_formed_argument :: "node \<Rightarrow> bool" where
  "well_formed_argument arg \<longleftrightarrow>
     getStart arg \<le> node_end arg \<and>
     (isObjectLiteralExpression arg \<and> properties arg \<noteq> [] \<longrightarrow>
        getStart arg + 1 \<le> node_end (properties arg ! (length (properties arg) - 1)) \<and>
        node_end (properties arg ! (length (properties arg) - 1)) \<le> node_end arg)"

definition well_formed_call :: "node \<Rightarrow> bool" where
  "well_formed_call node \<longleftrightarrow>
     arguments node \<noteq> [] \<and>
     getStart node \<le> getStart (arguments node ! 0) \<and>
     (\<forall>i<length (arguments node). well_formed_argument (arguments node ! i)) \<and>
     (\<forall>i. i + 1 < length (arguments node) \<longrightarrow>
        node_end (arguments node ! i) \<le> getStart (arguments node ! (i + 1))) \<and>
     node_end (arguments node ! (length (arguments node) - 1)) \<le> arguments_end node \<and>
     arguments_end node \<le> node_end node - 1"

fun disjoint_ops :: "replacement list \<Rightarrow> bool" where
  "disjoint_ops [] = True"
| "disjoint_ops (r # rs) = (list_all (\<lambda>x. \<not> overlap r x) rs \<and> disjoint_ops rs)"

definition within :: "int \<Rightarrow> int \<Rightarrow> replacement \<Rightarrow> bool" where
  "within lo hi r \<longleftrightarrow>
     lo \<le> replacement_start r \<and> replacement_start r \<le> replacement_end r \<and>
     replacement_end r \<le> hi"

definition bound :: "node \<Rightarrow> nat \<Rightarrow> int" where
  "bound node i =
     (if i + 1 < length (arguments node) then getStart (arguments node ! (i + 1))
      else arguments_end node)"

section \<open>Source texts and their trees\<close>

text \<open>
  The trees the TypeScript parser gives for the texts below, as statements of a source
  file, with the offsets counted in the text. \<open>Object_assign s\<close> is the callee
  \<^verbatim>\<open>Object.assign\<close> that starts at offset \<open>s\<close>.
\<close>

definition Object_assign :: "int \<Rightarrow> node" where
  "Object_assign s =
     PropertyAccessExpression s (s + 13) (Identifier s (s + 6) ''Object'')
       (s + 7) (s + 13) ''assign''"

definition ident :: "int \<Rightarrow> string \<Rightarrow> node" where
  "ident s name = Identifier s (s + int (length name)) name"

definition statement_file :: "node \<Rightarrow> node" where
  "statement_file expr =
     OtherNode (getStart expr) (node_end expr) SourceFile
       [OtherNode (getStart expr) (node_end expr) ExpressionStatement [expr]]"

definition statement_parent :: "node \<Rightarrow> node" where
  "statement_parent expr =
     OtherNode (getStart expr) (node_end expr) ExpressionStatement [expr]"

text \<open>The property \<^verbatim>\<open>a: 1\<close> that starts at offset \<open>s\<close>.\<close>

definition property_a_1 :: "int \<Rightarrow> node" where
  "property_a_1 s =
     OtherNode s (s + 4) PropertyAssignment
       [ident s ''a'', OtherNode (s + 3) (s + 4) NumericLiteral []]"

definition text_empty_first :: string where
  "text_empty_first = ''Object.assign({}, {a: 1}, b)''"

definition call_empty_first :: node where
  "call_empty_first =
     CallExpression 0 28 (Object_assign 0) []
       [ObjectLiteralExpression 14 16 [],
        ObjectLiteralExpression 18 24 [property_a_1 19],
        ident 26 ''b'']
       False 27"

definition text_empty_last :: string where
  "text_empty_last = ''Object.assign({a: 1}, b, {})''"

definition call_empty_last :: node where
  "call_empty_last =
     CallExpression 0 28 (Object_assign 0) []
       [ObjectLiteralExpression 14 20 [property_a_1 15],
        ident 22 ''b'',
        ObjectLiteralExpression 25 27 []]
       False 27"

definition text_conditional :: string where
  "text_conditional = ''Object.assign(cond ? a : b, c)''"

definition call_conditional :: node where
  "call_conditional =
     CallExpression 0 30 (Object_assign 0) []
       [ConditionalExpression 14 26 (ident 14 ''cond'') (ident 21 ''a'') (ident 25 ''b''),
        ident 28 ''c'']
       False 29"

definition text_nested_first :: string where
  "text_nested_first = ''Object.assign(Object.assign({}, a), b)''"

definition inner_nested_first :: node where
  "inner_nested_first =
     CallExpression 14 34 (Object_assign 14) []
       [ObjectLiteralExpression 28 30 [], ident 32 ''a''] False 33"

definition call_nested_first :: node where
  "call_nested_first =
     CallExpression 0 38 (Object_assign 0) [] [inner_nested_first, ident 36 ''b''] False 37"

definition text_nested_second :: string where
  "text_nested_second = ''Object.assign({}, Object.assign({}, a))''"

definition inner_nested_second :: node where
  "inner_nested_second =
     CallExpression 18 38 (Object_assign 18) []
       [ObjectLiteralExpression 32 34 [], ident 36 ''a''] False 37"

definition call_nested_second :: node where
  "call_nested_second =
     CallExpression 0 39 (Object_assign 0) []
       [ObjectLiteralExpression 14 16 [], inner_nested_second] False 38"

text \<open>The call \<^verbatim>\<open>Object.assign(a, b)\<close> that starts at offset \<open>s\<close>.\<close>

definition Object_assign_a_b :: "int \<Rightarrow> node" where
  "Object_assign_a_b s =
     CallExpression s (s + 19) (Object_assign s) []
       [ident (s + 14) ''a'', ident (s + 17) ''b''] False (s + 18)"

definition text_callee :: string where
  "text_callee = ''Object.assign(a, b)(x)''"

definition call_callee :: node where
  "call_callee = CallExpression 0 22 (Object_assign_a_b 0) [] [ident 20 ''x''] False 21"

definition text_assignment_to_call :: string where
  "text_assignment_to_call = ''Object.assign(a, b) = c''"

definition assignment_to_call :: node where
  "assignment_to_call = BinaryExpression 0 23 (Object_assign_a_b 0) EqualsToken (ident 22 ''c'')"

definition text_assignment_of_call :: string where
  "text_assignment_of_call = ''x = Object.assign(a, b)''"

definition assignment_of_call :: node where
  "assignment_of_call = BinaryExpression 0 23 (ident 0 ''x'') EqualsToken (Object_assign_a_b 4)"

definition text_call_argument :: string where
  "text_call_argument = ''f(Object.assign(a, b))''"

definition call_argument :: node where
  "call_argument = CallExpression 0 22 (ident 0 ''f'') [] [Object_assign_a_b 2] False 21"

definition text_new_argument :: string where
  "text_new_argument = ''new C(Object.assign(a, b))''"

definition new_argument :: node where
  "new_argument = NewExpression 0 26 (ident 4 ''C'') [] (Some [Object_assign_a_b 6])"

definition text_declaration :: string where
  "text_declaration = ''x = Object.assign(y, z)''"

definition call_declared :: node where
  "call_declared =
     CallExpression 4 23 (Object_assign 4) [] [ident 18 ''y'', ident 21 ''z''] False 22"

definition variable_declaration :: node where
  "variable_declaration = OtherNode 0 23 VariableDeclaration [ident 0 ''x'', call_declared]"

definition text_spread :: string where
  "text_spread = ''Object.assign({}, ...arr)''"

definition call_spread :: node where
  "call_spread =
     CallExpression 0 25 (Object_assign 0) []
       [ObjectLiteralExpression 14 16 [], SpreadElement 18 24 (ident 21 ''arr'')] False 24"

definition text_trailing_comma :: string where
  "text_trailing_comma = ''Object.assign(a, {},)''"

definition call_trailing_comma :: node where
  "call_trailing_comma =
     CallExpression 0 21 (Object_assign 0) []
       [ident 14 ''a'', ObjectLiteralExpression 17 19 []] True 20"

definition text_binary :: string where
  "text_binary = ''Object.assign(a || b, c)''"

definition call_binary :: node where
  "call_binary =
     CallExpression 0 24 (Object_assign 0) []
       [BinaryExpression 14 20 (ident 14 ''a'') BarBarToken (ident 19 ''b''),
        ident 22 ''c'']
       False 23"

definition text_new_without_arguments :: string where
  "text_new_without_arguments = ''new C''"

definition new_without_arguments :: node where
  "new_without_arguments = NewExpression 0 5 (ident 4 ''C'') [] None"

section \<open>Auxiliary lemmas\<close>

lemma cb_condition_matches: "cb_condition node = matches node"
  unfolding cb_condition_def
  by (induction node rule: matches.induct) auto

lemma createFix_loop_eq:
  "createFix_loop node i fx =
     fx @ concat (map (createFix_body node) [i..<length (arguments node)])"
proof (induction node i fx rule: createFix_loop.induct)
  case (1 node i fx)
  show ?case
  proof (cases "i < length (arguments node)")
    case True
    then show ?thesis
      using "1.IH" by (subst createFix_loop.simps) (simp add: upt_conv_Cons)
  next
    case False
    then show ?thesis by (subst createFix_loop.simps) simp
  qed
qed

lemma createFix_eq:
  assumes "isCallExpression node" and "arguments node \<noteq> []"
  shows "createFix node =
     Inr ([replaceFromTo (getStart node) (getStart (arguments node ! 0)) ''{'',
           Replacement (node_end node - 1) 1 ''}''] @
          concat (map (createFix_body node) [0..<length (arguments node)]))"
  using assms by (simp add: createFix_def createFix_loop_eq)

lemma matches_call: "matches node \<Longrightarrow> isCallExpression node \<and> arguments node \<noteq> []"
  by (induction node rule: matches.induct) auto


lemma cb_report_eq:
  "cb_report h parent sl node ctx = Inr (ctx @ reports h [(parent, sl, node)])"
proof (cases "matches node")
  case True
  then obtain fx where "createFix node = Inr fx"
    using createFix_eq matches_call by blast
  with True show ?thesis
    by (simp add: cb_report_def cb_condition_matches qualifies_def expected_failure_def
        addFailureAtNode_def reports_def)
next
  case False
  then show ?thesis
    by (simp add: cb_report_def cb_condition_matches qualifies_def reports_def)
qed

lemma reports_append: "reports h (xs @ ys) = reports h xs @ reports h ys"
  by (simp add: reports_def)

lemma reports_concat: "reports h (concat xss) = concat (map (reports h) xss)"
  by (induction xss) (simp_all add: reports_append, simp add: reports_def)

lemma forEachChild_all:
  assumes "\<And>sl child c. (sl, child) \<in> set links \<Longrightarrow> f sl child c = Inr (False, c @ g (sl, child))"
  shows "forEachChild links f ctx = Inr (False, ctx @ concat (map g links))"
  using assms
proof (induction links arbitrary: ctx)
  case Nil
  then show ?case by simp
next
  case (Cons a links)
  obtain sl child where a: "a = (sl, child)" by (cases a)
  have "f sl child ctx = Inr (False, ctx @ g (sl, child))"
    using Cons.prems by (simp add: a)
  moreover have "forEachChild links f (ctx @ g (sl, child)) =
      Inr (False, (ctx @ g (sl, child)) @ concat (map g links))"
    by (rule Cons.IH) (use Cons.prems in auto)
  ultimately show ?case by (simp add: a)
qed

lemma descendants_reports:
  "reports h (descendants node) =
     concat (map (\<lambda>(s, c). reports h ((node, s, c) # descendants c)) (forEachChild_links node))"
proof -
  have "reports h (descendants node) =
      concat (map (reports h) (map (\<lambda>(sl, child). (node, sl, child) # descendants child)
        (forEachChild_links node)))"
    by (subst descendants.simps) (simp only: reports_concat)
  also have "\<dots> = concat (map (\<lambda>(s, c). reports h ((node, s, c) # descendants c))
      (forEachChild_links node))"
    by (simp add: comp_def case_prod_unfold)
  finally show ?thesis .
qed

lemma cb_eq:
  "cb h parent sl node ctx =
     Inr (False, ctx @ reports h ((parent, sl, node) # descendants node))"
proof (induction "size node" arbitrary: parent sl node ctx rule: less_induct)
  case less
  have kids: "\<And>s c x. (s, c) \<in> set (forEachChild_links node) \<Longrightarrow>
      cb h node s c x = Inr (False, x @ reports h ((node, s, c) # descendants c))"
    using less size_forEachChild_links by blast
  have "forEachChild (forEachChild_links node) (cb h node) (ctx @ reports h [(parent, sl, node)]) =
        Inr (False, (ctx @ reports h [(parent, sl, node)]) @
          concat (map (\<lambda>(s, c). reports h ((node, s, c) # descendants c)) (forEachChild_links node)))"
    by (rule forEachChild_all) (use kids in auto)
  then have "cb h parent sl node ctx =
      Inr (False, (ctx @ reports h [(parent, sl, node)]) @ reports h (descendants node))"
    by (subst cb.simps) (simp only: cb_report_eq descendants_reports sum.case)
  also have "(ctx @ reports h [(parent, sl, node)]) @ reports h (descendants node) =
      ctx @ reports h ((parent, sl, node) # descendants node)"
    using reports_append [of h "[(parent, sl, node)]" "descendants node"] by simp
  finally show ?case .
qed

lemma walk_eq: "walk h sourceFile ctx = Inr (False, ctx @ reports h (descendants sourceFile))"
proof -
  have "walk h sourceFile ctx = Inr (False, ctx @
      concat (map (\<lambda>(s, c). reports h ((sourceFile, s, c) # descendants c))
        (forEachChild_links sourceFile)))"
    unfolding walk_def by (rule forEachChild_all) (simp add: cb_eq)
  then show ?thesis by (simp only: descendants_reports)
qed

lemma apply_rule_eq: "apply_rule h sourceFile = Inr (reports h (descendants sourceFile))"
  by (simp add: apply_rule_def walk_eq)


lemma reports_singletons:
  "reports h links = concat (map (\<lambda>link. reports h [link]) links)"
  by (induction links) (simp_all add: reports_def)

lemma format_loop_eq:
  "format_loop toJson failures i failuresJSON = failuresJSON @ map toJson (drop i failures)"
proof (induction toJson failures i failuresJSON rule: format_loop.induct)
  case (1 toJson failures i failuresJSON)
  show ?case
  proof (cases "i < length failures")
    case True
    then show ?thesis
      using "1.IH" by (subst format_loop.simps) (simp add: Cons_nth_drop_Suc [symmetric])
  next
    case False
    then show ?thesis by (subst format_loop.simps) simp
  qed
qed

lemma createFix_body_subset:
  assumes "isCallExpression node" and "i < length (arguments node)"
  shows "\<exists>fx. createFix node = Inr fx \<and> set (createFix_body node i) \<subseteq> set fx"
proof -
  from assms have "arguments node \<noteq> []" by auto
  from createFix_eq [OF assms(1) this] assms(2) show ?thesis by auto
qed

lemma indexOf_found:
  "indexOf args sl \<noteq> - 1 \<longleftrightarrow> (\<exists>i<length args. sl = ArgumentSlot i)"
  by (cases sl) auto

lemma descendants_closed:
  assumes "(sl, child) \<in> set (forEachChild_links node)"
  shows "(node, sl, child) \<in> set (descendants node) \<and>
     set (descendants child) \<subseteq> set (descendants node)"
proof -
  have "descendants node =
     concat (map (\<lambda>(sl, child). (node, sl, child) # descendants child)
       (forEachChild_links node))"
    by (rule descendants.simps)
  with assms show ?thesis by force
qed

text \<open>The example trees carry the offsets of their texts.\<close>

lemma example_texts_fix:
  "getText text_empty_first call_empty_first = text_empty_first"
  "map (getText text_empty_first) (arguments call_empty_first) = [''{}'', ''{a: 1}'', ''b'']"
  "map (getText text_empty_first) (properties (arguments call_empty_first ! 1)) = [''a: 1'']"
  "getText text_empty_last call_empty_last = text_empty_last"
  "map (getText text_empty_last) (arguments call_empty_last) = [''{a: 1}'', ''b'', ''{}'']"
  "map (getText text_empty_last) (properties (arguments call_empty_last ! 0)) = [''a: 1'']"
  "getText text_conditional call_conditional = text_conditional"
  "map (getText text_conditional) (arguments call_conditional) = [''cond ? a : b'', ''c'']"
  "getText text_trailing_comma call_trailing_comma = text_trailing_comma"
  "map (getText text_trailing_comma) (arguments call_trailing_comma) = [''a'', ''{}'']"
  "slice text_trailing_comma 0 (arguments_end call_trailing_comma) = ''Object.assign(a, {},''"
  "getText text_binary call_binary = text_binary"
  "map (getText text_binary) (arguments call_binary) = [''a || b'', ''c'']"
  by code_simp+

lemma example_texts_walk:
  "getText text_nested_first call_nested_first = text_nested_first"
  "map (getText text_nested_first) (arguments call_nested_first) =
     [''Object.assign({}, a)'', ''b'']"
  "map (getText text_nested_first) (arguments inner_nested_first) = [''{}'', ''a'']"
  "getText text_nested_second call_nested_second = text_nested_second"
  "map (getText text_nested_second) (arguments call_nested_second) =
     [''{}'', ''Object.assign({}, a)'']"
  "map (getText text_nested_second) (arguments inner_nested_second) = [''{}'', ''a'']"
  "getText text_callee call_callee = text_callee"
  "getText text_callee (expression call_callee) = ''Object.assign(a, b)''"
  "map (getText text_callee) (arguments call_callee) = [''x'']"
  "getText text_assignment_to_call (left assignment_to_call) = ''Object.assign(a, b)''"
  "getText text_assignment_to_call (right assignment_to_call) = ''c''"
  "getText text_assignment_of_call (left assignment_of_call) = ''x''"
  "getText text_assignment_of_call (right assignment_of_call) = ''Object.assign(a, b)''"
  "map (getText text_call_argument) (arguments call_argument) = [''Object.assign(a, b)'']"
  "map (getText text_new_argument) (the (new_arguments new_argument)) =
     [''Object.assign(a, b)'']"
  "map (getText text_declaration) (children variable_declaration) =
     [''x'', ''Object.assign(y, z)'']"
  "map (getText text_declaration) (arguments call_declared) = [''y'', ''z'']"
  "map (getText text_spread) (arguments call_spread) = [''{}'', ''...arr'']"
  "getText text_new_without_arguments new_without_arguments = text_new_without_arguments"
  by code_simp+

lemma example_callee:
  "getText text_empty_first (expression call_empty_first) = ''Object.assign''"
  "getText text_nested_first (expression inner_nested_first) = ''Object.assign''"
  "getText text_nested_second (expression inner_nested_second) = ''Object.assign''"
  "getText text_declaration (expression call_declared) = ''Object.assign''"
  "getText text_declaration (expression (expression call_declared)) = ''Object''"
  "slice text_declaration (name_start (expression call_declared))
     (name_end (expression call_declared)) = ''assign''"
  by code_simp+

text \<open>
  The replacements of a fix do not overlap, on a call whose offsets are in order. (That the
  patched text is again an object literal is a statement about the grammar of the language,
  which is not modelled.)
\<close>

lemma disjoint_ops_append:
  "disjoint_ops (xs @ ys) \<longleftrightarrow>
     disjoint_ops xs \<and> disjoint_ops ys \<and> (\<forall>x \<in> set xs. \<forall>y \<in> set ys. \<not> overlap x y)"
  by (induction xs) (auto simp: list_all_iff)

lemma within_no_overlap:
  "within lo hi a \<Longrightarrow> within lo' hi' b \<Longrightarrow> hi \<le> lo' \<Longrightarrow> \<not> overlap a b \<and> \<not> overlap b a"
  by (auto simp: within_def overlap_def)

lemma starts_mono:
  assumes "well_formed_call node" and "i \<le> j" and "j < length (arguments node)"
  shows "getStart (arguments node ! i) \<le> getStart (arguments node ! j)"
  using assms(2,3)
proof (induction j)
  case 0
  then show ?case by simp
next
  case (Suc j)
  show ?case
  proof (cases "i = Suc j")
    case True
    then show ?thesis by simp
  next
    case False
    with Suc.prems have ij: "i \<le> j" and j: "j < length (arguments node)" by auto
    from assms(1) j have "getStart (arguments node ! j) \<le> node_end (arguments node ! j)"
      by (simp add: well_formed_call_def well_formed_argument_def)
    moreover from assms(1) Suc.prems(2)
    have "node_end (arguments node ! j) \<le> getStart (arguments node ! Suc j)"
      by (simp add: well_formed_call_def)
    ultimately show ?thesis using Suc.IH [OF ij j] by linarith
  qed
qed

lemma end_le_bound:
  assumes "well_formed_call node" and "i < length (arguments node)"
  shows "node_end (arguments node ! i) \<le> bound node i"
proof (cases "i + 1 < length (arguments node)")
  case True
  with assms(1) show ?thesis by (simp add: bound_def well_formed_call_def)
next
  case False
  with assms(2) have "i = length (arguments node) - 1" by simp
  with assms(1) False show ?thesis by (simp add: bound_def well_formed_call_def)
qed

lemma bound_le_arguments_end:
  assumes "well_formed_call node" and "i < length (arguments node)"
  shows "bound node i \<le> arguments_end node"
proof (cases "i + 1 < length (arguments node)")
  case True
  let ?n = "length (arguments node)"
  from True have l: "?n - 1 < ?n" by simp
  from True have "getStart (arguments node ! (i + 1)) \<le> getStart (arguments node ! (?n - 1))"
    by (intro starts_mono [OF assms(1)]) auto
  moreover from assms(1) l have "getStart (arguments node ! (?n - 1)) \<le> node_end (arguments node ! (?n - 1))"
    by (simp add: well_formed_call_def well_formed_argument_def)
  moreover from assms(1) have "node_end (arguments node ! (?n - 1)) \<le> arguments_end node"
    by (simp add: well_formed_call_def)
  ultimately show ?thesis using True by (simp add: bound_def)
next
  case False
  then show ?thesis by (simp add: bound_def)
qed

lemma createFix_body_within:
  assumes "well_formed_call node" and "i < length (arguments node)"
  shows "list_all (within (getStart (arguments node ! i)) (bound node i)) (createFix_body node i)
     \<and> disjoint_ops (createFix_body node i)"
proof -
  let ?arg = "arguments node ! i"
  from assms have wa: "well_formed_argument ?arg"
    by (simp add: well_formed_call_def)
  have eb: "node_end ?arg \<le> bound node i"
    by (rule end_le_bound [OF assms])
  have last: "i \<noteq> length (arguments node) - 1 \<longleftrightarrow> i + 1 < length (arguments node)"
    using assms(2) by auto
  show ?thesis
  proof (cases "isObjectLiteralExpression ?arg")
    case True
    show ?thesis
    proof (cases "properties ?arg = []")
      case True
      with \<open>isObjectLiteralExpression ?arg\<close> wa eb show ?thesis
        unfolding createFix_body_def Let_def last
        by (auto simp: within_def deleteFromTo_def replacement_end_def bound_def
            well_formed_argument_def)
    next
      case False
      with True wa eb show ?thesis
        unfolding createFix_body_def Let_def
        by (auto simp: within_def deleteFromTo_def deleteText_def replacement_end_def
            well_formed_argument_def overlap_def)
    qed
  next
    case False
    with wa eb show ?thesis
      unfolding createFix_body_def Let_def
      by (auto simp: within_def appendText_def replacement_end_def well_formed_argument_def
          overlap_def)
  qed
qed

lemma createFix_bodies_disjoint:
  assumes "well_formed_call node" and "k \<le> length (arguments node)"
  shows "disjoint_ops (concat (map (createFix_body node) [k..<length (arguments node)])) \<and>
     (\<forall>r \<in> set (concat (map (createFix_body node) [k..<length (arguments node)])).
        \<exists>j. k \<le> j \<and> j < length (arguments node) \<and>
          within (getStart (arguments node ! j)) (bound node j) r)"
  using assms(2)
proof (induction "length (arguments node) - k" arbitrary: k)
  case 0
  then show ?case by simp
next
  case (Suc d)
  then have k: "k < length (arguments node)" by simp
  let ?rest = "concat (map (createFix_body node) [Suc k..<length (arguments node)])"
  have IH: "disjoint_ops ?rest \<and>
     (\<forall>r \<in> set ?rest. \<exists>j. Suc k \<le> j \<and> j < length (arguments node) \<and>
          within (getStart (arguments node ! j)) (bound node j) r)"
    using Suc by (intro Suc.hyps(1)) auto
  from createFix_body_within [OF assms(1) k]
  have b: "\<forall>r \<in> set (createFix_body node k). within (getStart (arguments node ! k)) (bound node k) r"
    and bd: "disjoint_ops (createFix_body node k)"
    by (auto simp: list_all_iff)
  have cross: "\<not> overlap x y" if x: "x \<in> set (createFix_body node k)" and y: "y \<in> set ?rest" for x y
  proof -
    from IH y obtain j where j: "Suc k \<le> j" "j < length (arguments node)"
      "within (getStart (arguments node ! j)) (bound node j) y" by blast
    from j have "bound node k = getStart (arguments node ! (k + 1))"
      by (simp add: bound_def)
    moreover have "getStart (arguments node ! (k + 1)) \<le> getStart (arguments node ! j)"
      using j by (intro starts_mono [OF assms(1)]) auto
    ultimately have "bound node k \<le> getStart (arguments node ! j)" by simp
    with b x j(3) show ?thesis using within_no_overlap by blast
  qed
  have unfold: "concat (map (createFix_body node) [k..<length (arguments node)]) =
      createFix_body node k @ ?rest"
    using k by (simp add: upt_conv_Cons)
  have "disjoint_ops (createFix_body node k @ ?rest)"
    unfolding disjoint_ops_append using bd IH cross by blast
  moreover have "\<exists>j. k \<le> j \<and> j < length (arguments node) \<and>
          within (getStart (arguments node ! j)) (bound node j) r"
    if r: "r \<in> set (createFix_body node k @ ?rest)" for r
  proof (cases "r \<in> set (createFix_body node k)")
    case True
    with b k show ?thesis by blast
  next
    case False
    with r have "r \<in> set ?rest" by simp
    with IH obtain j where "Suc k \<le> j" "j < length (arguments node)"
      "within (getStart (arguments node ! j)) (bound node j) r" by blast
    then show ?thesis using Suc_leD by blast
  qed
  ultimately show ?case unfolding unfold by blast
qed

lemma createFix_disjoint:
  assumes "isCallExpression node" and "well_formed_call node"
  shows "\<exists>fx. createFix node = Inr fx \<and> disjoint_ops fx"
proof -
  let ?n = "length (arguments node)"
  let ?bodies = "concat (map (createFix_body node) [0..<?n])"
  let ?h1 = "replaceFromTo (getStart node) (getStart (arguments node ! 0)) ''{''"
  let ?h2 = "Replacement (node_end node - 1) 1 ''}''"
  from assms(2) have ne: "arguments node \<noteq> []" by (simp add: well_formed_call_def)
  from createFix_bodies_disjoint [OF assms(2), of 0]
  have d: "disjoint_ops ?bodies"
    and w: "\<forall>r \<in> set ?bodies. \<exists>j<?n. within (getStart (arguments node ! j)) (bound node j) r"
    by auto
  have h1: "within (getStart node) (getStart (arguments node ! 0)) ?h1"
    using assms(2) by (simp add: within_def replaceFromTo_def replacement_end_def well_formed_call_def)
  have h2: "within (node_end node - 1) (node_end node) ?h2"
    by (simp add: within_def replacement_end_def)
  have a_end: "arguments_end node \<le> node_end node - 1"
    using assms(2) by (simp add: well_formed_call_def)
  have s0: "getStart (arguments node ! 0) \<le> arguments_end node"
  proof -
    from ne have n: "0 < ?n" by simp
    with assms(2) have "getStart (arguments node ! 0) \<le> node_end (arguments node ! 0)"
      by (simp add: well_formed_call_def well_formed_argument_def)
    with end_le_bound [OF assms(2) n] bound_le_arguments_end [OF assms(2) n]
    show ?thesis by linarith
  qed
  have c1: "\<not> overlap ?h1 r \<and> \<not> overlap ?h2 r" if r: "r \<in> set ?bodies" for r
  proof -
    from w r obtain j where j: "j < ?n" "within (getStart (arguments node ! j)) (bound node j) r"
      by blast
    have "getStart (arguments node ! 0) \<le> getStart (arguments node ! j)"
      using j(1) by (intro starts_mono [OF assms(2)]) auto
    moreover have "bound node j \<le> node_end node - 1"
      using bound_le_arguments_end [OF assms(2) j(1)] a_end by simp
    ultimately show ?thesis
      using h1 h2 j(2) within_no_overlap by blast
  qed
  have c2: "\<not> overlap ?h1 ?h2"
    using h1 h2 s0 a_end within_no_overlap [of _ _ ?h1 _ _ ?h2] by simp
  have "disjoint_ops (?h1 # ?h2 # ?bodies)"
    using d c1 c2 by (simp add: list_all_iff)
  with createFix_eq [OF assms(1) ne] show ?thesis by simp
qed

lemma createFix_disjoint_example:
  "well_formed_call call_empty_first \<and> well_formed_call call_empty_last \<and>
   well_formed_call call_conditional \<and> well_formed_call call_trailing_comma"
  by (simp add: well_formed_call_def well_formed_argument_def call_empty_first_def
      call_empty_last_def call_conditional_def call_trailing_comma_def property_a_1_def
      ident_def Object_assign_def nth_Cons' less_Suc_eq all_conj_distrib)

section \<open>The claims\<close>

text \<open>
  C1: for every call expression the rule matches (callee \<^verbatim>\<open>Object.assign\<close>, at least one
  argument, no spread argument), the callback adds exactly one failure with the message
  "Use the object spread operator instead." and the fix when the first argument is an
  object literal; otherwise it adds exactly one failure with the message "'Object.assign'
  returns the first argument. Prefer object spread if you want a new object." and the fix
  if and only if the value of the call is used and the first argument has no side effect
  (constructor category); in every other case it adds no failure. The failures the rule
  reports for a source file are these, one list for each node of the file with its parent
  link, in document order: \<open>reports h [(parent, sl, node)]\<close> is what the rule reports for
  the node, and for a matched call it is the list the callback adds.
\<close>

theorem cb_report_matched:
  assumes "matches node"
  shows "\<exists>fx. createFix node = Inr fx \<and>
     cb_report hasSideEffects parent sl node ctx =
       Inr (ctx @
         (if isObjectLiteralExpression (arguments node ! 0) then
            [\<lparr>failure_node = node, message = FAILURE_STRING, failure_fix = Some fx\<rparr>]
          else if isReturnValueUsed parent sl \<and> \<not> hasSideEffects (arguments node ! 0) then
            [\<lparr>failure_node = node, message = ASSIGNMENT_FAILURE_STRING,
              failure_fix = Some fx\<rparr>]
          else [])) \<and>
     reports hasSideEffects [(parent, sl, node)] =
       (if isObjectLiteralExpression (arguments node ! 0) then
          [\<lparr>failure_node = node, message = FAILURE_STRING, failure_fix = Some fx\<rparr>]
        else if isReturnValueUsed parent sl \<and> \<not> hasSideEffects (arguments node ! 0) then
          [\<lparr>failure_node = node, message = ASSIGNMENT_FAILURE_STRING,
            failure_fix = Some fx\<rparr>]
        else []) \<and>
     apply_rule hasSideEffects sourceFile =
       Inr (concat (map (\<lambda>link. reports hasSideEffects [link]) (descendants sourceFile)))"
proof -
  from assms obtain fx where fx: "createFix node = Inr fx"
    using createFix_eq matches_call by blast
  from assms have "cb_condition node"
    by (simp add: cb_condition_matches)
  with fx have cb: "cb_report hasSideEffects parent sl node ctx =
       Inr (ctx @
         (if isObjectLiteralExpression (arguments node ! 0) then
            [\<lparr>failure_node = node, message = FAILURE_STRING, failure_fix = Some fx\<rparr>]
          else if isReturnValueUsed parent sl \<and> \<not> hasSideEffects (arguments node ! 0) then
            [\<lparr>failure_node = node, message = ASSIGNMENT_FAILURE_STRING,
              failure_fix = Some fx\<rparr>]
          else []))"
    by (simp add: cb_report_def addFailureAtNode_def)
  from assms fx have rep: "reports hasSideEffects [(parent, sl, node)] =
       (if isObjectLiteralExpression (arguments node ! 0) then
          [\<lparr>failure_node = node, message = FAILURE_STRING, failure_fix = Some fx\<rparr>]
        else if isReturnValueUsed parent sl \<and> \<not> hasSideEffects (arguments node ! 0) then
          [\<lparr>failure_node = node, message = ASSIGNMENT_FAILURE_STRING,
            failure_fix = Some fx\<rparr>]
        else [])"
    by (simp add: reports_def qualifies_def expected_failure_def)
  have rule: "apply_rule hasSideEffects sourceFile =
       Inr (concat (map (\<lambda>link. reports hasSideEffects [link]) (descendants sourceFile)))"
    using apply_rule_eq [of hasSideEffects sourceFile]
      reports_singletons [of hasSideEffects "descendants sourceFile"] by simp
  from fx cb rep rule show ?thesis by blast
qed

theorem cb_report_matched_witness:
  "matches call_empty_first \<and>
   (\<exists>fx. createFix call_empty_first = Inr fx \<and>
      cb_report (\<lambda>n. False) (statement_parent call_empty_first) (ChildSlot 0)
        call_empty_first [] =
      Inr [\<lparr>failure_node = call_empty_first, message = FAILURE_STRING,
             failure_fix = Some fx\<rparr>] \<and>
      apply_rule (\<lambda>n. False) (statement_file call_empty_first) =
      Inr [\<lparr>failure_node = call_empty_first, message = FAILURE_STRING,
             failure_fix = Some fx\<rparr>]) \<and>
   matches call_declared \<and>
   (\<exists>fx. createFix call_declared = Inr fx \<and>
      cb_report (\<lambda>n. False) variable_declaration (ChildSlot 1) call_declared [] =
      Inr [\<lparr>failure_node = call_declared, message = ASSIGNMENT_FAILURE_STRING,
             failure_fix = Some fx\<rparr>]) \<and>
   cb_report (\<lambda>n. False) (statement_parent call_declared) (ChildSlot 0) call_declared [] =
     Inr [] \<and>
   apply_rule (\<lambda>n. False) (statement_file call_declared) = Inr [] \<and>
   matches (Object_assign_a_b 4) \<and>
   (\<exists>fx. createFix (Object_assign_a_b 4) = Inr fx \<and>
      apply_rule (\<lambda>n. False) (statement_file assignment_of_call) =
      Inr [\<lparr>failure_node = Object_assign_a_b 4, message = ASSIGNMENT_FAILURE_STRING,
             failure_fix = Some fx\<rparr>]) \<and>
   apply_rule (\<lambda>n. True) (statement_file assignment_of_call) = Inr [] \<and>
   concat (map (\<lambda>link. reports (\<lambda>n. False) [link])
     (descendants (statement_file call_empty_first))) = [expected_failure call_empty_first]"
proof -
  have m1: "matches call_empty_first" by code_simp
  have l1: "isObjectLiteralExpression (arguments call_empty_first ! 0)" by code_simp
  have m2: "matches call_declared" by code_simp
  have l2: "\<not> isObjectLiteralExpression (arguments call_declared ! 0)" by code_simp
  have u2: "isReturnValueUsed variable_declaration (ChildSlot 1)" by code_simp
  have u3: "\<not> isReturnValueUsed (statement_parent call_declared) (ChildSlot 0)" by code_simp
  have m3: "matches (Object_assign_a_b 4)" by code_simp
  have a1: "apply_rule (\<lambda>n. False) (statement_file call_empty_first) =
      Inr [expected_failure call_empty_first]" by code_simp
  have a2: "apply_rule (\<lambda>n. False) (statement_file call_declared) = Inr []" by code_simp
  have a3: "apply_rule (\<lambda>n. False) (statement_file assignment_of_call) =
      Inr [expected_failure (Object_assign_a_b 4)]" by code_simp
  have a4: "apply_rule (\<lambda>n. True) (statement_file assignment_of_call) = Inr []" by code_simp
  have l3: "\<not> isObjectLiteralExpression (arguments (Object_assign_a_b 4) ! 0)" by code_simp
  note i1 = cb_report_matched [OF m1, of "\<lambda>n. False" "statement_parent call_empty_first"
      "ChildSlot 0" "[]" "statement_file call_empty_first"]
  note i2 = cb_report_matched [OF m2, of "\<lambda>n. False" variable_declaration "ChildSlot 1" "[]"
      "statement_file call_declared"]
  note i3 = cb_report_matched [OF m2, of "\<lambda>n. False" "statement_parent call_declared"
      "ChildSlot 0" "[]" "statement_file call_declared"]
  note i4 = cb_report_matched [OF m3, of "\<lambda>n. False" assignment_of_call RightSlot "[]"
      "statement_file assignment_of_call"]
  from i1 l1 obtain fx1 where f1: "createFix call_empty_first = Inr fx1"
    "cb_report (\<lambda>n. False) (statement_parent call_empty_first) (ChildSlot 0)
        call_empty_first [] =
      Inr [\<lparr>failure_node = call_empty_first, message = FAILURE_STRING,
             failure_fix = Some fx1\<rparr>]"
    "apply_rule (\<lambda>n. False) (statement_file call_empty_first) =
       Inr (concat (map (\<lambda>link. reports (\<lambda>n. False) [link])
         (descendants (statement_file call_empty_first))))"
    by auto
  from f1(1) l1 have e1: "expected_failure call_empty_first =
      \<lparr>failure_node = call_empty_first, message = FAILURE_STRING, failure_fix = Some fx1\<rparr>"
    by (simp add: expected_failure_def)
  from i2 l2 u2 obtain fx2 where f2: "createFix call_declared = Inr fx2"
    "cb_report (\<lambda>n. False) variable_declaration (ChildSlot 1) call_declared [] =
      Inr [\<lparr>failure_node = call_declared, message = ASSIGNMENT_FAILURE_STRING,
             failure_fix = Some fx2\<rparr>]"
    by auto
  from i3 l2 u3 have f3: "cb_report (\<lambda>n. False) (statement_parent call_declared) (ChildSlot 0)
      call_declared [] = Inr []"
    by auto
  from i4 obtain fx4 where f4: "createFix (Object_assign_a_b 4) = Inr fx4" by blast
  from f4 l3 have e4: "expected_failure (Object_assign_a_b 4) =
      \<lparr>failure_node = Object_assign_a_b 4, message = ASSIGNMENT_FAILURE_STRING,
        failure_fix = Some fx4\<rparr>"
    by (simp add: expected_failure_def)
  from f1(3) a1 have c1: "concat (map (\<lambda>link. reports (\<lambda>n. False) [link])
     (descendants (statement_file call_empty_first))) = [expected_failure call_empty_first]"
    by simp
  show ?thesis
    using m1 m2 m3 f1(1,2) a1 e1 f2 f3 a2 f4 a3 e4 a4 c1 by auto
qed

text \<open>
  C3: for every call (with at least one argument, as every qualifying call has) and every
  argument \<open>a\<^sub>i\<close> that is an object literal with no property, the fix deletes the span of
  \<open>a\<^sub>i\<close>, extended through to the start of the next argument when a later argument follows,
  and through to the end of the argument list when \<open>a\<^sub>i\<close> is the last argument and the call
  has a trailing comma; this deletion is all the loop emits for \<open>a\<^sub>i\<close>. In particular
  \<^verbatim>\<open>Object.assign({}, {a: 1}, b)\<close> is fixed to \<^verbatim>\<open>{a: 1, ...b}\<close>.
\<close>

theorem createFix_empty_literal:
  assumes "isCallExpression node"
    and "i < length (arguments node)"
    and "arguments node ! i = ObjectLiteralExpression s e []"
  shows "(\<exists>fx. createFix node = Inr fx \<and>
       deleteFromTo s
         (if i + 1 < length (arguments node) then getStart (arguments node ! (i + 1))
          else if hasTrailingComma node then arguments_end node
          else e) \<in> set fx) \<and>
     createFix_body node i =
       [deleteFromTo s
         (if i + 1 < length (arguments node) then getStart (arguments node ! (i + 1))
          else if hasTrailingComma node then arguments_end node
          else e)] \<and>
     fixed_text text_empty_first call_empty_first = Inr ''{a: 1, ...b}''"
proof -
  have last: "i \<noteq> length (arguments node) - 1 \<longleftrightarrow> i + 1 < length (arguments node)"
    using assms(2) by auto
  have body: "createFix_body node i =
       [deleteFromTo s
         (if i + 1 < length (arguments node) then getStart (arguments node ! (i + 1))
          else if hasTrailingComma node then arguments_end node
          else e)]"
    unfolding createFix_body_def Let_def last by (simp add: assms(3))
  from createFix_body_subset [OF assms(1,2)] obtain fx
    where fx: "createFix node = Inr fx" "set (createFix_body node i) \<subseteq> set fx"
    by blast
  have ex: "fixed_text text_empty_first call_empty_first = Inr ''{a: 1, ...b}''"
    by code_simp
  from fx body ex show ?thesis by auto
qed

theorem createFix_empty_literal_witness:
  "isCallExpression call_empty_first \<and> 0 < length (arguments call_empty_first) \<and>
   arguments call_empty_first ! 0 = ObjectLiteralExpression 14 16 [] \<and>
   createFix_body call_empty_first 0 = [Replacement 14 4 []] \<and>
   (\<exists>fx. createFix call_empty_first = Inr fx \<and> Replacement 14 4 [] \<in> set fx) \<and>
   isCallExpression call_trailing_comma \<and> 1 < length (arguments call_trailing_comma) \<and>
   arguments call_trailing_comma ! 1 = ObjectLiteralExpression 17 19 [] \<and>
   createFix_body call_trailing_comma 1 = [Replacement 17 3 []] \<and>
   fixed_text text_trailing_comma call_trailing_comma = Inr ''{...a, }''"
proof -
  have a: "isCallExpression call_empty_first" by code_simp
  have b: "0 < length (arguments call_empty_first)" by code_simp
  have c: "arguments call_empty_first ! 0 = ObjectLiteralExpression 14 16 []" by code_simp
  have d: "(if 0 + 1 < length (arguments call_empty_first)
            then getStart (arguments call_empty_first ! (0 + 1))
            else if hasTrailingComma call_empty_first then arguments_end call_empty_first
            else 16) = 18" by code_simp
  have e: "deleteFromTo 14 18 = Replacement 14 4 []" by (simp add: deleteFromTo_def)
  have a': "isCallExpression call_trailing_comma" by code_simp
  have b': "1 < length (arguments call_trailing_comma)" by code_simp
  have c': "arguments call_trailing_comma ! 1 = ObjectLiteralExpression 17 19 []" by code_simp
  have d': "(if 1 + 1 < length (arguments call_trailing_comma)
            then getStart (arguments call_trailing_comma ! (1 + 1))
            else if hasTrailingComma call_trailing_comma then arguments_end call_trailing_comma
            else 19) = 20" by code_simp
  have e': "deleteFromTo 17 20 = Replacement 17 3 []" by (simp add: deleteFromTo_def)
  have f': "fixed_text text_trailing_comma call_trailing_comma = Inr ''{...a, }''" by code_simp
  from createFix_empty_literal [OF a b c] createFix_empty_literal [OF a' b' c'] show ?thesis
    unfolding d e d' e' using a b c a' b' c' f' by blast
qed

text \<open>
  C4: for every call and every argument \<open>a\<^sub>i\<close> that is not an object literal, the fix
  inserts \<^verbatim>\<open>...\<close> immediately before \<open>a\<^sub>i\<close>, and wraps \<open>a\<^sub>i\<close> in parentheses (\<^verbatim>\<open>(\<close> after
  the marker, \<^verbatim>\<open>)\<close> at the end of \<open>a\<^sub>i\<close>) if and only if \<open>a\<^sub>i\<close> is a conditional expression or
  a binary expression. In particular \<^verbatim>\<open>Object.assign(cond ? a : b, c)\<close> is fixed to
  \<^verbatim>\<open>{...(cond ? a : b), ...c}\<close>.
\<close>

theorem createFix_spread_argument:
  assumes "isCallExpression node"
    and "i < length (arguments node)"
    and "\<not> isObjectLiteralExpression (arguments node ! i)"
  shows "(\<exists>fx. createFix node = Inr fx \<and> set (createFix_body node i) \<subseteq> set fx) \<and>
     createFix_body node i =
       (if isConditionalExpression (arguments node ! i) \<or> isBinaryExpression (arguments node ! i)
        then [appendText (getStart (arguments node ! i)) ''...('',
              appendText (node_end (arguments node ! i)) '')'']
        else [appendText (getStart (arguments node ! i)) ''...'']) \<and>
     fixed_text text_conditional call_conditional = Inr ''{...(cond ? a : b), ...c}''"
proof -
  have parens: "needsParens n \<longleftrightarrow> isConditionalExpression n \<or> isBinaryExpression n" for n
    by (cases n) simp_all
  have body: "createFix_body node i =
       (if isConditionalExpression (arguments node ! i) \<or> isBinaryExpression (arguments node ! i)
        then [appendText (getStart (arguments node ! i)) ''...('',
              appendText (node_end (arguments node ! i)) '')'']
        else [appendText (getStart (arguments node ! i)) ''...''])"
    unfolding createFix_body_def Let_def parens using assms(3) by simp
  have ex: "fixed_text text_conditional call_conditional = Inr ''{...(cond ? a : b), ...c}''"
    by code_simp
  from createFix_body_subset [OF assms(1,2)] body ex show ?thesis by blast
qed

theorem createFix_spread_argument_witness:
  "isCallExpression call_conditional \<and> 0 < length (arguments call_conditional) \<and>
   \<not> isObjectLiteralExpression (arguments call_conditional ! 0) \<and>
   createFix_body call_conditional 0 = [Replacement 14 0 ''...('', Replacement 26 0 '')''] \<and>
   1 < length (arguments call_conditional) \<and>
   \<not> isObjectLiteralExpression (arguments call_conditional ! 1) \<and>
   createFix_body call_conditional 1 = [Replacement 28 0 ''...''] \<and>
   createFix call_conditional =
     Inr [Replacement 0 14 ''{'', Replacement 29 1 ''}'', Replacement 14 0 ''...('',
          Replacement 26 0 '')'', Replacement 28 0 ''...''] \<and>
   isCallExpression call_binary \<and> 0 < length (arguments call_binary) \<and>
   \<not> isObjectLiteralExpression (arguments call_binary ! 0) \<and>
   createFix_body call_binary 0 = [Replacement 14 0 ''...('', Replacement 20 0 '')''] \<and>
   fixed_text text_binary call_binary = Inr ''{...(a || b), ...c}''"
proof -
  have a: "isCallExpression call_conditional" by code_simp
  have b0: "0 < length (arguments call_conditional)" by code_simp
  have c0: "\<not> isObjectLiteralExpression (arguments call_conditional ! 0)" by code_simp
  have b1: "1 < length (arguments call_conditional)" by code_simp
  have c1: "\<not> isObjectLiteralExpression (arguments call_conditional ! 1)" by code_simp
  have d0: "(if isConditionalExpression (arguments call_conditional ! 0) \<or>
                isBinaryExpression (arguments call_conditional ! 0)
        then [appendText (getStart (arguments call_conditional ! 0)) ''...('',
              appendText (node_end (arguments call_conditional ! 0)) '')'']
        else [appendText (getStart (arguments call_conditional ! 0)) ''...'']) =
        [Replacement 14 0 ''...('', Replacement 26 0 '')'']" by code_simp
  have d1: "(if isConditionalExpression (arguments call_conditional ! 1) \<or>
                isBinaryExpression (arguments call_conditional ! 1)
        then [appendText (getStart (arguments call_conditional ! 1)) ''...('',
              appendText (node_end (arguments call_conditional ! 1)) '')'']
        else [appendText (getStart (arguments call_conditional ! 1)) ''...'']) =
        [Replacement 28 0 ''...'']" by code_simp
  have f: "createFix call_conditional =
     Inr [Replacement 0 14 ''{'', Replacement 29 1 ''}'', Replacement 14 0 ''...('',
          Replacement 26 0 '')'', Replacement 28 0 ''...'']" by code_simp
  have a': "isCallExpression call_binary" by code_simp
  have b': "0 < length (arguments call_binary)" by code_simp
  have c': "\<not> isObjectLiteralExpression (arguments call_binary ! 0)" by code_simp
  have d': "(if isConditionalExpression (arguments call_binary ! 0) \<or>
                isBinaryExpression (arguments call_binary ! 0)
        then [appendText (getStart (arguments call_binary ! 0)) ''...('',
              appendText (node_end (arguments call_binary ! 0)) '')'']
        else [appendText (getStart (arguments call_binary ! 0)) ''...'']) =
        [Replacement 14 0 ''...('', Replacement 20 0 '')'']" by code_simp
  have f': "fixed_text text_binary call_binary = Inr ''{...(a || b), ...c}''" by code_simp
  from createFix_spread_argument [OF a b0 c0] createFix_spread_argument [OF a b1 c1]
    createFix_spread_argument [OF a' b' c']
  show ?thesis
    unfolding d0 d1 d' using a b0 c0 b1 c1 f a' b' c' f' by blast
qed

text \<open>
  C5, as claimed: the fix of \<^verbatim>\<open>Object.assign({a: 1}, b, {})\<close> yields \<^verbatim>\<open>{a: 1, ...b}\<close>. It does
  not: the separator before the trailing empty literal is kept.
\<close>

theorem fixed_text_empty_last_counterexample:
  "fixed_text text_empty_last call_empty_last \<noteq> Inr ''{a: 1, ...b}''"
  by code_simp

text \<open>
  C5, amended: applying the fix produced for \<^verbatim>\<open>Object.assign({a: 1}, b, {})\<close> (no trailing
  comma) yields exactly \<^verbatim>\<open>{a: 1, ...b, }\<close>. The trailing empty object literal is elided;
  the separator before it, at offsets 23 and 24, is covered by no replacement of the fix
  and stays.
\<close>

theorem fixed_text_empty_last:
  "fixed_text text_empty_last call_empty_last = Inr ''{a: 1, ...b, }'' \<and>
   createFix call_empty_last =
     Inr [Replacement 0 14 ''{'', Replacement 27 1 ''}'', Replacement 14 1 [],
          Replacement 19 1 [], Replacement 22 0 ''...'', Replacement 25 2 []] \<and>
   slice text_empty_last 23 25 = '', ''"
  by code_simp

text \<open>
  C6, as claimed: for an expression whose parent is a binary expression, the classifier
  answers "used" if and only if the operator is the plain \<^verbatim>\<open>=\<close> and the expression is the
  right-hand side. It answers "used" for the left operand as well: in
  \<^verbatim>\<open>Object.assign(a, b) = c\<close> the call is the left operand of \<^verbatim>\<open>=\<close>.
\<close>

theorem isReturnValueUsed_left_of_assignment_counterexample:
  "isBinaryExpression assignment_to_call \<and>
   forEachChild_links assignment_to_call ! 0 = (LeftSlot, Object_assign_a_b 0) \<and>
   isReturnValueUsed assignment_to_call LeftSlot \<and>
   \<not> (operatorToken assignment_to_call = EqualsToken \<and> LeftSlot = RightSlot)"
  by code_simp

text \<open>
  C6, amended: for every expression whose parent is a binary expression, the classifier
  reports the value as consumed if and only if the operator is the plain assignment \<^verbatim>\<open>=\<close>
  (not a compound assignment), whichever operand the expression is; for every expression
  whose parent is a call or a constructor invocation, it reports consumed if and only if
  the expression is one of the arguments of the parent.
\<close>

theorem isReturnValueUsed_binary_call_new:
  "(isBinaryExpression parent \<longrightarrow>
      (isReturnValueUsed parent sl \<longleftrightarrow> operatorToken parent = EqualsToken)) \<and>
   (isCallExpression parent \<longrightarrow>
      (isReturnValueUsed parent sl \<longleftrightarrow>
         (\<exists>i<length (arguments parent). sl = ArgumentSlot i))) \<and>
   (isNewExpression parent \<longrightarrow>
      (isReturnValueUsed parent sl \<longleftrightarrow>
         (\<exists>args. new_arguments parent = Some args \<and> (\<exists>i<length args. sl = ArgumentSlot i))))"
  by (cases parent) (auto simp: indexOf_found split: option.splits)

theorem isReturnValueUsed_binary_call_new_witness:
  "isBinaryExpression assignment_of_call \<and>
   operatorToken assignment_of_call = EqualsToken \<and>
   isReturnValueUsed assignment_of_call RightSlot \<and>
   isReturnValueUsed assignment_of_call LeftSlot \<and>
   isCallExpression call_argument \<and>
   isReturnValueUsed call_argument (ArgumentSlot 0) \<and>
   \<not> isReturnValueUsed call_argument ExpressionSlot \<and>
   isNewExpression new_argument \<and>
   isReturnValueUsed new_argument (ArgumentSlot 0) \<and>
   \<not> isReturnValueUsed new_argument ExpressionSlot"
proof -
  have b: "isBinaryExpression assignment_of_call" "operatorToken assignment_of_call = EqualsToken"
    by code_simp+
  have c: "isCallExpression call_argument" "length (arguments call_argument) = 1"
    by code_simp+
  have n: "isNewExpression new_argument"
    "new_arguments new_argument = Some [Object_assign_a_b 6]"
    by code_simp+
  show ?thesis
    using b c n
      isReturnValueUsed_binary_call_new [of assignment_of_call RightSlot]
      isReturnValueUsed_binary_call_new [of assignment_of_call LeftSlot]
      isReturnValueUsed_binary_call_new [of call_argument "ArgumentSlot 0"]
      isReturnValueUsed_binary_call_new [of call_argument ExpressionSlot]
      isReturnValueUsed_binary_call_new [of new_argument "ArgumentSlot 0"]
      isReturnValueUsed_binary_call_new [of new_argument ExpressionSlot]
    by simp
qed

text \<open>
  C7: the callback adds a failure for a node only if the node is a call with at least one
  argument whose callee is a member access with the plain identifier \<^verbatim>\<open>Object\<close> as receiver
  and \<^verbatim>\<open>assign\<close> as member name, and none of whose arguments is a spread argument; for every
  call with a spread argument no failure is added, whatever its shape otherwise; and every
  failure of a run of the rule is anchored at such a call.
\<close>

theorem cb_report_only_Object_assign:
  "(cb_report hasSideEffects parent sl node ctx \<noteq> Inr ctx \<longrightarrow>
      (\<exists>s e s' e' s'' e'' ns ne targs args htc aend.
         node =
           CallExpression s e
             (PropertyAccessExpression s' e' (Identifier s'' e'' ''Object'') ns ne ''assign'')
             targs args htc aend \<and>
         args \<noteq> [] \<and> \<not> list_ex isSpreadElement args)) \<and>
   (isCallExpression node \<and> list_ex isSpreadElement (arguments node) \<longrightarrow>
      cb_report hasSideEffects parent sl node ctx = Inr ctx) \<and>
   (\<forall>fs. apply_rule hasSideEffects sourceFile = Inr fs \<longrightarrow>
      (\<forall>f \<in> set fs. matches (failure_node f)))"
proof (intro conjI impI allI)
  assume "cb_report hasSideEffects parent sl node ctx \<noteq> Inr ctx"
  then have "matches node"
    by (auto simp: cb_report_def cb_condition_matches split: if_splits)
  then show "\<exists>s e s' e' s'' e'' ns ne targs args htc aend.
         node =
           CallExpression s e
             (PropertyAccessExpression s' e' (Identifier s'' e'' ''Object'') ns ne ''assign'')
             targs args htc aend \<and>
         args \<noteq> [] \<and> \<not> list_ex isSpreadElement args"
    by (induction node rule: matches.induct) auto
next
  assume "isCallExpression node \<and> list_ex isSpreadElement (arguments node)"
  then show "cb_report hasSideEffects parent sl node ctx = Inr ctx"
    by (simp add: cb_report_def cb_condition_def)
next
  fix fs
  assume "apply_rule hasSideEffects sourceFile = Inr fs"
  then have "fs = reports hasSideEffects (descendants sourceFile)"
    by (simp add: apply_rule_eq)
  then show "\<forall>f \<in> set fs. matches (failure_node f)"
    by (auto simp: reports_def qualifies_def expected_failure_def)
qed

theorem cb_report_only_Object_assign_witness:
  "cb_report (\<lambda>n. False) (statement_parent call_empty_first) (ChildSlot 0) call_empty_first []
     \<noteq> Inr [] \<and>
   call_empty_first =
     CallExpression 0 28
       (PropertyAccessExpression 0 13 (Identifier 0 6 ''Object'') 7 13 ''assign'') []
       (arguments call_empty_first) False 27 \<and>
   arguments call_empty_first \<noteq> [] \<and>
   \<not> list_ex isSpreadElement (arguments call_empty_first) \<and>
   isCallExpression call_spread \<and> list_ex isSpreadElement (arguments call_spread) \<and>
   cb_report (\<lambda>n. False) variable_declaration (ChildSlot 1) call_spread [] = Inr [] \<and>
   apply_rule (\<lambda>n. False) (statement_file call_nested_second) =
     Inr [expected_failure call_nested_second, expected_failure inner_nested_second] \<and>
   matches (failure_node (expected_failure call_nested_second)) \<and>
   matches (failure_node (expected_failure inner_nested_second))"
proof -
  have r: "cb_report (\<lambda>n. False) (statement_parent call_empty_first) (ChildSlot 0)
      call_empty_first [] \<noteq> Inr []"
    by code_simp
  have shape: "call_empty_first =
     CallExpression 0 28
       (PropertyAccessExpression 0 13 (Identifier 0 6 ''Object'') 7 13 ''assign'') []
       (arguments call_empty_first) False 27"
    "arguments call_empty_first \<noteq> []"
    "\<not> list_ex isSpreadElement (arguments call_empty_first)"
    by code_simp+
  have sp: "isCallExpression call_spread \<and> list_ex isSpreadElement (arguments call_spread)"
    by code_simp
  have ap: "apply_rule (\<lambda>n. False) (statement_file call_nested_second) =
     Inr [expected_failure call_nested_second, expected_failure inner_nested_second]"
    by code_simp
  note inst = cb_report_only_Object_assign
    [of "\<lambda>n. False" variable_declaration "ChildSlot 1" call_spread "[]"
      "statement_file call_nested_second"]
  from inst sp have "cb_report (\<lambda>n. False) variable_declaration (ChildSlot 1) call_spread [] = Inr []"
    by blast
  moreover from inst ap have "matches (failure_node (expected_failure call_nested_second))"
    "matches (failure_node (expected_failure inner_nested_second))"
    by auto
  ultimately show ?thesis
    using r shape sp ap by blast
qed

text \<open>
  C8, as claimed: \<^verbatim>\<open>Object.assign(Object.assign({}, a), b)\<close> yields two findings. As a
  statement it yields one, even with an oracle that finds no side effect anywhere: the value
  of the outer call is not used, and its first argument is no object literal.
\<close>

theorem walk_nested_first_counterexample:
  "map_sum id length (apply_rule (\<lambda>n. False) (statement_file call_nested_first)) = Inr 1"
  by code_simp

text \<open>
  C8, amended: the walker never stops early and visits every descendant of the source file,
  those of matched calls included, so every qualifying call, also one nested in another
  qualifying call, produces its own failure, and the failures are those of the qualifying
  calls in depth-first pre-order (document order). For example
  \<^verbatim>\<open>Object.assign({}, Object.assign({}, a))\<close> yields two findings, the outer call first; the
  statement \<^verbatim>\<open>Object.assign(Object.assign({}, a), b)\<close> yields one, for the inner call.
\<close>

theorem walk_preorder:
  "walk hasSideEffects sourceFile ctx =
     Inr (False, ctx @ reports hasSideEffects (descendants sourceFile)) \<and>
   apply_rule hasSideEffects sourceFile = Inr (reports hasSideEffects (descendants sourceFile)) \<and>
   map failure_node (reports hasSideEffects (descendants sourceFile)) =
     map (\<lambda>link. snd (snd link)) (filter (qualifies hasSideEffects) (descendants sourceFile)) \<and>
   (\<forall>link \<in> set (descendants sourceFile). qualifies hasSideEffects link \<longrightarrow>
      expected_failure (snd (snd link)) \<in> set (reports hasSideEffects (descendants sourceFile))) \<and>
   apply_rule hasSideEffects (statement_file call_nested_second) =
     Inr [expected_failure call_nested_second, expected_failure inner_nested_second] \<and>
   apply_rule hasSideEffects (statement_file call_nested_first) =
     Inr [expected_failure inner_nested_first]"
proof (intro conjI)
  show "walk hasSideEffects sourceFile ctx =
     Inr (False, ctx @ reports hasSideEffects (descendants sourceFile))"
    by (rule walk_eq)
  show "apply_rule hasSideEffects sourceFile = Inr (reports hasSideEffects (descendants sourceFile))"
    by (rule apply_rule_eq)
  show "map failure_node (reports hasSideEffects (descendants sourceFile)) =
     map (\<lambda>link. snd (snd link)) (filter (qualifies hasSideEffects) (descendants sourceFile))"
    by (simp add: reports_def expected_failure_def comp_def)
  show "\<forall>link \<in> set (descendants sourceFile). qualifies hasSideEffects link \<longrightarrow>
      expected_failure (snd (snd link)) \<in> set (reports hasSideEffects (descendants sourceFile))"
    by (auto simp: reports_def)
  show "apply_rule hasSideEffects (statement_file call_nested_second) =
     Inr [expected_failure call_nested_second, expected_failure inner_nested_second]"
    by code_simp
  show "apply_rule hasSideEffects (statement_file call_nested_first) =
     Inr [expected_failure inner_nested_first]"
    by code_simp
qed

theorem walk_preorder_witness:
  "walk (\<lambda>n. False) (statement_file call_nested_second) [] =
     Inr (False, [expected_failure call_nested_second, expected_failure inner_nested_second]) \<and>
   map (\<lambda>link. snd (snd link))
     (filter (qualifies (\<lambda>n. False)) (descendants (statement_file call_nested_second))) =
     [call_nested_second, inner_nested_second] \<and>
   (statement_parent call_nested_second, ChildSlot 0, call_nested_second)
     \<in> set (descendants (statement_file call_nested_second)) \<and>
   qualifies (\<lambda>n. False) (statement_parent call_nested_second, ChildSlot 0, call_nested_second)"
proof -
  note inst = walk_preorder [of "\<lambda>n. False" "statement_file call_nested_second" "[]"]
  have n: "failure_node (expected_failure x) = x" for x
    by (simp add: expected_failure_def)
  from inst have e1: "apply_rule (\<lambda>n. False) (statement_file call_nested_second) =
      Inr (reports (\<lambda>n. False) (descendants (statement_file call_nested_second)))"
    and e2: "apply_rule (\<lambda>n. False) (statement_file call_nested_second) =
      Inr [expected_failure call_nested_second, expected_failure inner_nested_second]"
    by blast+
  from e1 e2 have r: "reports (\<lambda>n. False) (descendants (statement_file call_nested_second)) =
     [expected_failure call_nested_second, expected_failure inner_nested_second]"
    by simp
  have q: "qualifies (\<lambda>n. False)
      (statement_parent call_nested_second, ChildSlot 0, call_nested_second)"
    by code_simp
  have "(ChildSlot 0, call_nested_second) \<in>
      set (forEachChild_links (statement_parent call_nested_second))"
    by code_simp
  then have m1: "(statement_parent call_nested_second, ChildSlot 0, call_nested_second) \<in>
      set (descendants (statement_parent call_nested_second))"
    using descendants_closed by blast
  have "(ChildSlot 0, statement_parent call_nested_second) \<in>
      set (forEachChild_links (statement_file call_nested_second))"
    by code_simp
  then have "set (descendants (statement_parent call_nested_second)) \<subseteq>
      set (descendants (statement_file call_nested_second))"
    using descendants_closed by blast
  with m1 have m: "(statement_parent call_nested_second, ChildSlot 0, call_nested_second) \<in>
      set (descendants (statement_file call_nested_second))"
    by blast
  from inst show ?thesis
    unfolding r using m q by (simp add: n)
qed

text \<open>
  C9: for every sequence of failure records, \<^verbatim>\<open>format\<close> returns one JSON array string: an
  opening bracket, the serializations of the records' own \<^verbatim>\<open>toJson()\<close> values in the order
  of the input, one for each record, separated by a comma and nothing else, and a closing
  bracket.
\<close>

theorem format_json_array:
  "format toJson failures =
     ''['' @ join '','' (map (\<lambda>f. JSON_stringify (toJson f)) failures) @ '']'' \<and>
   format_loop toJson failures 0 [] = map toJson failures"
  by (simp add: format_def format_loop_eq comp_def)

text \<open>
  C10: for every expression whose parent is a call or a \<^verbatim>\<open>new\<close> expression, the classifier
  reports the value as not consumed when the parent has no argument list (\<^verbatim>\<open>new C\<close>) or
  when the expression is not one of the arguments of the parent (the callee in
  \<^verbatim>\<open>Object.assign(a, b)(x)\<close>); so the callback adds no failure for such a call whose first
  argument is no object literal.
\<close>

theorem isReturnValueUsed_not_an_argument:
  assumes "isNewExpression parent \<and> new_arguments parent = None \<or>
     isCallExpression parent \<and> \<not> (\<exists>i<length (arguments parent). sl = ArgumentSlot i) \<or>
     isNewExpression parent \<and>
       (\<forall>args. new_arguments parent = Some args \<longrightarrow> \<not> (\<exists>i<length args. sl = ArgumentSlot i))"
  shows "\<not> isReturnValueUsed parent sl \<and>
     (\<not> isObjectLiteralExpression (arguments node ! 0) \<longrightarrow>
        cb_report hasSideEffects parent sl node ctx = Inr ctx)"
proof -
  from assms have "\<not> isReturnValueUsed parent sl"
    by (cases parent) (auto simp: indexOf_found split: option.splits)
  then show ?thesis
    by (simp add: cb_report_def)
qed

theorem isReturnValueUsed_not_an_argument_witness:
  "isCallExpression call_callee \<and>
   forEachChild_links call_callee ! 0 = (ExpressionSlot, Object_assign_a_b 0) \<and>
   \<not> (\<exists>i<length (arguments call_callee). ExpressionSlot = ArgumentSlot i) \<and>
   \<not> isReturnValueUsed call_callee ExpressionSlot \<and>
   matches (Object_assign_a_b 0) \<and>
   \<not> isObjectLiteralExpression (arguments (Object_assign_a_b 0) ! 0) \<and>
   cb_report (\<lambda>n. False) call_callee ExpressionSlot (Object_assign_a_b 0) [] = Inr [] \<and>
   isNewExpression new_without_arguments \<and> new_arguments new_without_arguments = None \<and>
   \<not> isReturnValueUsed new_without_arguments ExpressionSlot"
proof -
  have a: "isCallExpression call_callee"
    "forEachChild_links call_callee ! 0 = (ExpressionSlot, Object_assign_a_b 0)"
    "matches (Object_assign_a_b 0)"
    "\<not> isObjectLiteralExpression (arguments (Object_assign_a_b 0) ! 0)"
    by code_simp+
  have b: "\<not> (\<exists>i<length (arguments call_callee). ExpressionSlot = ArgumentSlot i)"
    by simp
  have n: "isNewExpression new_without_arguments" "new_arguments new_without_arguments = None"
    by code_simp+
  from a(1) b have h1: "isNewExpression call_callee \<and> new_arguments call_callee = None \<or>
     isCallExpression call_callee \<and>
       \<not> (\<exists>i<length (arguments call_callee). ExpressionSlot = ArgumentSlot i) \<or>
     isNewExpression call_callee \<and>
       (\<forall>args. new_arguments call_callee = Some args \<longrightarrow>
          \<not> (\<exists>i<length args. ExpressionSlot = ArgumentSlot i))"
    by blast
  from n have h2: "isNewExpression new_without_arguments \<and>
       new_arguments new_without_arguments = None \<or>
     isCallExpression new_without_arguments \<and>
       \<not> (\<exists>i<length (arguments new_without_arguments). ExpressionSlot = ArgumentSlot i) \<or>
     isNewExpression new_without_arguments \<and>
       (\<forall>args. new_arguments new_without_arguments = Some args \<longrightarrow>
          \<not> (\<exists>i<length args. ExpressionSlot = ArgumentSlot i))"
    by blast
  from isReturnValueUsed_not_an_argument [OF h1, of "Object_assign_a_b 0" "\<lambda>n. False" "[]"]
    isReturnValueUsed_not_an_argument [OF h2, of "Object_assign_a_b 0" "\<lambda>n. False" "[]"]
  show ?thesis
    using a b n by blast
qed

end
